theory Spec2Isabelle
  imports Main "HOL-Library.Sublist"
begin

section \<open>Values of the extraction route\<close>

text \<open>
  The route \<^verbatim>\<open>app/api/extract/route.ts\<close> treats the agent's answer as \<^verbatim>\<open>any\<close>: whatever
  \<^verbatim>\<open>JSON.parse\<close> returned. A value is therefore one of the JSON shapes, or
  \<^verbatim>\<open>undefined\<close>, which \<^verbatim>\<open>JSON.parse\<close> never produces but which reading an absent property does.

  Strings are lists of \<^typ>\<open>char\<close>; a \<^typ>\<open>char\<close> stands for a UTF-16 code unit below 256, so
  strings with code units from 256 on are outside this development. An object is the
  list of its own properties, where a key is looked up from the front.

  The numbers are those of the platform, IEEE doubles, and the route does only two
  things with one: it prints it (\<^verbatim>\<open>String(item)\<close>) and it tests whether it is falsy. So
  the type \<open>'n\<close> of numbers is a parameter of the values, and so are the two operations
  wherever they are used: \<open>numberToString\<close> stands for \<^verbatim>\<open>Number::toString\<close> and
  \<open>numberIsFalsy\<close> holds of the numbers that \<^verbatim>\<open>ToBoolean\<close> sends to false (the zeros and
  \<^verbatim>\<open>NaN\<close>).
\<close>

datatype 'n jsval =
    JUndefined
  | JNull
  | JBool bool
  | JNum 'n
  | JStr string
  | JArr "'n jsval list"
  | JObj "(string \<times> 'n jsval) list"

text \<open>What a statement of the route can throw and the outer \<^verbatim>\<open>catch\<close> receives.\<close>

datatype thrown = TypeError | InsertError string

definition andThen :: "thrown + 'a \<Rightarrow> ('a \<Rightarrow> thrown + 'b) \<Rightarrow> thrown + 'b" where
  "andThen r f = (case r of Inl e \<Rightarrow> Inl e | Inr x \<Rightarrow> f x)"

subsection \<open>Truthiness, property access\<close>

text \<open>
  \<^verbatim>\<open>ToBoolean\<close>: the falsy values are undefined, null, false, the falsy numbers and the
  empty string.
\<close>

fun truthy :: "('n \<Rightarrow> bool) \<Rightarrow> 'n jsval \<Rightarrow> bool" where
  "truthy numberIsFalsy JUndefined = False"
| "truthy numberIsFalsy JNull = False"
| "truthy numberIsFalsy (JBool b) = b"
| "truthy numberIsFalsy (JNum n) = (\<not> numberIsFalsy n)"
| "truthy numberIsFalsy (JStr s) = (s \<noteq> [])"
| "truthy numberIsFalsy (JArr xs) = True"
| "truthy numberIsFalsy (JObj kvs) = True"

text \<open>\<^verbatim>\<open>a || b\<close> and \<^verbatim>\<open>a ?? b\<close>.\<close>

definition orElse :: "('n \<Rightarrow> bool) \<Rightarrow> 'n jsval \<Rightarrow> 'n jsval \<Rightarrow> 'n jsval" where
  "orElse numberIsFalsy a b = (if truthy numberIsFalsy a then a else b)"

fun nullish :: "'n jsval \<Rightarrow> bool" where
  "nullish JUndefined = True"
| "nullish JNull = True"
| "nullish v = False"

definition coalesce :: "'n jsval \<Rightarrow> 'n jsval \<Rightarrow> 'n jsval" where
  "coalesce a b = (if nullish a then b else a)"

text \<open>
  Reading a property \<^verbatim>\<open>v.k\<close> of a value that is neither null nor undefined. The route
  reads only the keys of its JSON format (\<^verbatim>\<open>about_section\<close>, \<^verbatim>\<open>role_title\<close>,
  \<^verbatim>\<open>technical\<close>, ...), none of which is a property of a prototype, so a key that the
  object does not own reads as undefined, and so does every key of a primitive or array.
\<close>

fun propOf :: "'n jsval \<Rightarrow> string \<Rightarrow> 'n jsval" where
  "propOf (JObj kvs) k = (case map_of kvs k of Some v \<Rightarrow> v | None \<Rightarrow> JUndefined)"
| "propOf v k = JUndefined"

text \<open>\<^verbatim>\<open>v.k\<close> throws a TypeError on null and undefined; \<^verbatim>\<open>v?.k\<close> reads undefined there.\<close>

definition getProp :: "'n jsval \<Rightarrow> string \<Rightarrow> thrown + 'n jsval" where
  "getProp v k = (if nullish v then Inl TypeError else Inr (propOf v k))"

definition optProp :: "'n jsval \<Rightarrow> string \<Rightarrow> 'n jsval" where
  "optProp v k = (if nullish v then JUndefined else propOf v k)"

subsection \<open>Strings: trim and String(item)\<close>

text \<open>
  The white space that \<^verbatim>\<open>String.prototype.trim\<close> strips and that \<^verbatim>\<open>\s\<close> matches, among
  the code units below 256: tab, line feed, vertical tab, form feed, carriage return,
  space and no-break space.
\<close>

definition isWhiteSpace :: "char \<Rightarrow> bool" where
  "isWhiteSpace c = (c \<in> set [CHR 0x09, CHR 0x0A, CHR 0x0B, CHR 0x0C, CHR 0x0D, CHR 0x20, CHR 0xA0])"

definition trim :: "string \<Rightarrow> string" where
  "trim s = rev (dropWhile isWhiteSpace (rev (dropWhile isWhiteSpace s)))"

fun intercalate :: "string \<Rightarrow> string list \<Rightarrow> string" where
  "intercalate sep [] = []"
| "intercalate sep [s] = s"
| "intercalate sep (s # t # ss) = s @ sep @ intercalate sep (t # ss)"

text \<open>
  \<^verbatim>\<open>String(item)\<close>, that is \<^verbatim>\<open>ToString\<close>. Undefined, null and a boolean have their literal
  form, a number the form that \<open>numberToString\<close> prints, a string is itself. An array is
  \<^verbatim>\<open>Array.prototype.join\<close> with a comma, where a null or undefined element contributes
  the empty string and any other element its own \<^verbatim>\<open>ToString\<close>. An object goes through
  \<^verbatim>\<open>OrdinaryToPrimitive\<close> with hint string: it looks up \<^verbatim>\<open>toString\<close>, then \<^verbatim>\<open>valueOf\<close>,
  and calls the first that is callable and returns a primitive. A parsed object has no
  callable property of its own, so if it owns a key \<^verbatim>\<open>toString\<close> that key shadows
  \<^verbatim>\<open>Object.prototype.toString\<close>, \<^verbatim>\<open>valueOf\<close> is either shadowed too or returns the object
  itself, and the conversion throws a TypeError; otherwise \<^verbatim>\<open>Object.prototype.toString\<close>
  answers \<^verbatim>\<open>[object Object]\<close>.
\<close>

fun ToString :: "('n \<Rightarrow> string) \<Rightarrow> 'n jsval \<Rightarrow> thrown + string"
  and joinElements :: "('n \<Rightarrow> string) \<Rightarrow> 'n jsval list \<Rightarrow> thrown + string list" where
  "ToString numberToString JUndefined = Inr ''undefined''"
| "ToString numberToString JNull = Inr ''null''"
| "ToString numberToString (JBool b) = Inr (if b then ''true'' else ''false'')"
| "ToString numberToString (JNum n) = Inr (numberToString n)"
| "ToString numberToString (JStr s) = Inr s"
| "ToString numberToString (JArr xs) =
     (case joinElements numberToString xs of
        Inl e \<Rightarrow> Inl e
      | Inr ss \<Rightarrow> Inr (intercalate '','' ss))"
| "ToString numberToString (JObj kvs) =
     (if map_of kvs ''toString'' \<noteq> None then Inl TypeError else Inr ''[object Object]'')"
| "joinElements numberToString [] = Inr []"
| "joinElements numberToString (x # xs) =
     (case (if nullish x then Inr [] else ToString numberToString x) of
        Inl e \<Rightarrow> Inl e
      | Inr s \<Rightarrow>
          (case joinElements numberToString xs of Inl e \<Rightarrow> Inl e | Inr ss \<Rightarrow> Inr (s # ss)))"

text \<open>
  \<^verbatim>\<open>Array.prototype.map\<close> with a callback that may throw: the elements are visited from
  left to right and the first exception ends the call.
\<close>

fun mapThrowing :: "('a \<Rightarrow> thrown + 'b) \<Rightarrow> 'a list \<Rightarrow> thrown + 'b list" where
  "mapThrowing f [] = Inr []"
| "mapThrowing f (x # xs) =
     (case f x of
        Inl e \<Rightarrow> Inl e
      | Inr y \<Rightarrow> (case mapThrowing f xs of Inl e \<Rightarrow> Inl e | Inr ys \<Rightarrow> Inr (y # ys)))"

section \<open>The insight normalizer\<close>

text \<open>
  \<^verbatim>\<open>normalizedArray\<close> of \<^verbatim>\<open>app/api/extract/route.ts\<close>. The callback of \<^verbatim>\<open>map\<close> trims a
  string item and trims \<^verbatim>\<open>String(item)\<close> of any other item; \<^verbatim>\<open>filter(Boolean)\<close> keeps the
  non-empty strings.
\<close>

definition trimItem :: "('n \<Rightarrow> string) \<Rightarrow> 'n jsval \<Rightarrow> thrown + string" where
  "trimItem numberToString item =
     (case item of
        JStr s \<Rightarrow> Inr (trim s)
      | _ \<Rightarrow> andThen (ToString numberToString item) (\<lambda>s. Inr (trim s)))"

definition normalizedArray :: "('n \<Rightarrow> string) \<Rightarrow> 'n jsval \<Rightarrow> thrown + string list" where
  "normalizedArray numberToString v =
     (case v of
        JArr items \<Rightarrow>
          andThen (mapThrowing (trimItem numberToString) items)
            (\<lambda>ss. Inr (filter (\<lambda>s. s \<noteq> []) ss))
      | JStr s \<Rightarrow> (if trim s \<noteq> [] then Inr [trim s] else Inr [])
      | _ \<Rightarrow> Inr [])"

text \<open>
  \<^verbatim>\<open>normalizedArray\<close> of the other copy of the route (\<^verbatim>\<open>src/unnamed/part_003\<close>): the
  callback of \<^verbatim>\<open>map\<close> returns a string item as it is and \<^verbatim>\<open>String(item)\<close> of any other
  item; nothing is trimmed in the array branch.
\<close>

definition plainItem :: "('n \<Rightarrow> string) \<Rightarrow> 'n jsval \<Rightarrow> thrown + string" where
  "plainItem numberToString item =
     (case item of JStr s \<Rightarrow> Inr s | _ \<Rightarrow> ToString numberToString item)"

definition normalizedArray_part003 :: "('n \<Rightarrow> string) \<Rightarrow> 'n jsval \<Rightarrow> thrown + string list" where
  "normalizedArray_part003 numberToString v =
     (case v of
        JArr items \<Rightarrow>
          andThen (mapThrowing (plainItem numberToString) items)
            (\<lambda>ss. Inr (filter (\<lambda>s. s \<noteq> []) ss))
      | JStr s \<Rightarrow> (if trim s \<noteq> [] then Inr [trim s] else Inr [])
      | _ \<Rightarrow> Inr [])"

text \<open>The object \<^verbatim>\<open>validatedInsights\<close>, field by field in the order of the source.\<close>

record skills =
  technical :: "string list"
  soft_skills :: "string list"

record 'n validated_insights =
  about_section :: "string list"
  responsibilities_section :: "string list"
  qualifications_section :: "string list"
  role_title :: "'n jsval"
  seniority_level :: "'n jsval"
  industry_context :: "'n jsval"
  core_responsibilities :: "string list"
  required_skills :: skills
  tools_technologies :: "string list"
  key_success_metrics :: "string list"
  hiring_signals :: "string list"
  collaboration_aspects :: "string list"
  extracted_at :: string
  sources_analyzed :: nat

text \<open>
  The fields written as an immediately called arrow function:
  \<^verbatim>\<open>const arr = normalizedArray(raw); return arr.length ? arr : [sentinel]\<close>.
\<close>

definition arrOrDefault :: "('n \<Rightarrow> string) \<Rightarrow> 'n jsval \<Rightarrow> string \<Rightarrow> thrown + string list" where
  "arrOrDefault numberToString raw sentinel =
     andThen (normalizedArray numberToString raw)
       (\<lambda>arr. Inr (if length arr \<noteq> 0 then arr else [sentinel]))"

text \<open>
  The fields written as a conditional expression:
  \<^verbatim>\<open>normalizedArray(raw).length ? normalizedArray(raw) : [sentinel]\<close>.
\<close>

definition lengthOrDefault :: "('n \<Rightarrow> string) \<Rightarrow> 'n jsval \<Rightarrow> string \<Rightarrow> thrown + string list" where
  "lengthOrDefault numberToString raw sentinel =
     andThen (normalizedArray numberToString raw)
       (\<lambda>arr. if length arr \<noteq> 0 then normalizedArray numberToString raw else Inr [sentinel])"

text \<open>
  \<^verbatim>\<open>now\<close> is \<^verbatim>\<open>new Date().toISOString()\<close> and \<^verbatim>\<open>job_posting_ids\<close> the list of the request.
  Every \<^verbatim>\<open>insights.k\<close> throws when \<^verbatim>\<open>insights\<close> is null; the first exception ends the
  evaluation of the object literal.
\<close>

definition validatedInsights ::
  "('n \<Rightarrow> string) \<Rightarrow> ('n \<Rightarrow> bool) \<Rightarrow> 'n jsval \<Rightarrow> string \<Rightarrow> string list \<Rightarrow>
   thrown + 'n validated_insights" where
  "validatedInsights numberToString numberIsFalsy insights now job_posting_ids =
     andThen (andThen (getProp insights ''about_section'')
                (\<lambda>raw. arrOrDefault numberToString raw ''Not specified in posting'')) (\<lambda>about.
     andThen (andThen (getProp insights ''responsibilities_section'')
                (\<lambda>raw. arrOrDefault numberToString raw ''Not specified in posting'')) (\<lambda>resp.
     andThen (andThen (getProp insights ''qualifications_section'')
                (\<lambda>raw. arrOrDefault numberToString raw ''Not specified in posting'')) (\<lambda>qual.
     andThen (getProp insights ''role_title'') (\<lambda>title.
     andThen (getProp insights ''seniority_level'') (\<lambda>level.
     andThen (getProp insights ''industry_context'') (\<lambda>industry.
     andThen (andThen (getProp insights ''core_responsibilities'')
                (\<lambda>raw. arrOrDefault numberToString raw ''Responsibilities not specified'')) (\<lambda>core.
     andThen (andThen (getProp insights ''required_skills'')
                (\<lambda>rs. lengthOrDefault numberToString (coalesce (optProp rs ''technical'') (JArr []))
                        ''Not specified in posting'')) (\<lambda>tech.
     andThen (andThen (getProp insights ''required_skills'')
                (\<lambda>rs. lengthOrDefault numberToString (coalesce (optProp rs ''soft_skills'') (JArr []))
                        ''Not specified in posting'')) (\<lambda>soft.
     andThen (andThen (getProp insights ''tools_technologies'')
                (\<lambda>raw. lengthOrDefault numberToString raw ''Not specified in posting'')) (\<lambda>tools.
     andThen (andThen (getProp insights ''key_success_metrics'')
                (\<lambda>raw. lengthOrDefault numberToString raw ''Not specified in posting'')) (\<lambda>metrics.
     andThen (andThen (getProp insights ''hiring_signals'')
                (\<lambda>raw. lengthOrDefault numberToString raw ''Not specified in posting'')) (\<lambda>signals.
     andThen (andThen (getProp insights ''collaboration_aspects'')
                (\<lambda>raw. lengthOrDefault numberToString raw ''Not specified in posting'')) (\<lambda>collab.
     Inr \<lparr> about_section = about,
           responsibilities_section = resp,
           qualifications_section = qual,
           role_title = orElse numberIsFalsy title (JStr ''Unknown Role''),
           seniority_level = orElse numberIsFalsy level (JStr ''mid''),
           industry_context = orElse numberIsFalsy industry (JStr ''General''),
           core_responsibilities = core,
           required_skills = \<lparr> technical = tech, soft_skills = soft \<rparr>,
           tools_technologies = tools,
           key_success_metrics = metrics,
           hiring_signals = signals,
           collaboration_aspects = collab,
           extracted_at = now,
           sources_analyzed = length job_posting_ids \<rparr>)))))))))))))"

section \<open>The scoped retriever\<close>

text \<open>
  A document of the vector store carries the metadata that the ingestion route wrote:
  \<^verbatim>\<open>user_id\<close> and \<^verbatim>\<open>job_posting_id\<close>. The filter reads them as \<^verbatim>\<open>doc.metadata?.user_id\<close>, so
  the metadata and each key may be absent (\<open>None\<close> is \<^verbatim>\<open>undefined\<close>).
\<close>

record doc_metadata =
  user_id :: "string option"
  job_posting_id :: "string option"

record document =
  pageContent :: string
  metadata :: "doc_metadata option"

text \<open>What the retriever writes to the console: the warning of the fallback, or the count.\<close>

datatype console = Warn_post_filter_fallback | Log_filtered nat nat

text \<open>\<^verbatim>\<open>job_posting_ids.includes(docJobId)\<close>: undefined is not one of the ids.\<close>

definition arrayIncludes :: "string list \<Rightarrow> string option \<Rightarrow> bool" where
  "arrayIncludes ids x = (case x of None \<Rightarrow> False | Some j \<Rightarrow> j \<in> set ids)"

text \<open>The callback of \<^verbatim>\<open>docs.filter\<close>; \<^verbatim>\<open>===\<close> against undefined is false.\<close>

definition matchesScope :: "string \<Rightarrow> string list \<Rightarrow> document \<Rightarrow> bool" where
  "matchesScope req_user_id job_posting_ids doc =
     (let docUserId = Option.bind (metadata doc) user_id;
          docJobId = Option.bind (metadata doc) job_posting_id;
          matchesUser = (docUserId = Some req_user_id);
          matchesJob = (length job_posting_ids = 0 \<or> arrayIncludes job_posting_ids docJobId)
      in matchesUser \<and> matchesJob)"

text \<open>
  \<^verbatim>\<open>filteredRetriever.getRelevantDocuments\<close>; \<^verbatim>\<open>baseRetriever\<close> is the retriever of the
  vector store (\<^verbatim>\<open>k: 40\<close>), whose answer is awaited before anything else happens.
\<close>

definition getRelevantDocuments ::
  "(string \<Rightarrow> document list) \<Rightarrow> string \<Rightarrow> string list \<Rightarrow> string \<Rightarrow> document list \<times> console list" where
  "getRelevantDocuments baseRetriever req_user_id job_posting_ids query =
     (let docs = baseRetriever query;
          filtered = filter (matchesScope req_user_id job_posting_ids) docs
      in if length filtered = 0
         then (take 20 docs, [Warn_post_filter_fallback])
         else (take 20 filtered, [Log_filtered (length filtered) (length docs)]))"

text \<open>A store without any candidate for any query.\<close>

definition emptyStore :: "string \<Rightarrow> document list" where
  "emptyStore query = []"

section \<open>The response parser\<close>

text \<open>
  The two regular expressions of the route,
  \<^verbatim>\<open>/```json\s*([\s\S]*?)\s*```/\<close> and \<^verbatim>\<open>/```\s*([\s\S]*?)\s*```/\<close>, as backtracking
  matchers: each piece takes the matcher of the rest of the pattern and the text at the
  current position.
\<close>

text \<open>A literal: the text must start with it.\<close>

fun lit :: "string \<Rightarrow> (string \<Rightarrow> 'a option) \<Rightarrow> string \<Rightarrow> 'a option" where
  "lit [] k s = k s"
| "lit (c # cs) k [] = None"
| "lit (c # cs) k (x # xs) = (if x = c then lit cs k xs else None)"

text \<open>Greedy \<^verbatim>\<open>\s*\<close>: take white space while the rest matches, give it back otherwise.\<close>

fun wsStar :: "(string \<Rightarrow> 'a option) \<Rightarrow> string \<Rightarrow> 'a option" where
  "wsStar k [] = k []"
| "wsStar k (x # xs) =
     (if isWhiteSpace x
      then (case wsStar k xs of Some r \<Rightarrow> Some r | None \<Rightarrow> k (x # xs))
      else k (x # xs))"

text \<open>
  The lazy group \<^verbatim>\<open>([\s\S]*?)\<close>: try the rest of the pattern first and take one more
  code unit, whatever it is, only when the rest fails. The result is the captured text.
\<close>

fun lazyGroup :: "(string \<Rightarrow> unit option) \<Rightarrow> string \<Rightarrow> string \<Rightarrow> string option" where
  "lazyGroup k acc [] = (case k [] of Some u \<Rightarrow> Some (rev acc) | None \<Rightarrow> None)"
| "lazyGroup k acc (x # xs) =
     (case k (x # xs) of Some u \<Rightarrow> Some (rev acc) | None \<Rightarrow> lazyGroup k (x # acc) xs)"

text \<open>\<^verbatim>\<open>String.prototype.match\<close> without the global flag: the first position that matches.\<close>

fun search :: "(string \<Rightarrow> 'a option) \<Rightarrow> string \<Rightarrow> 'a option" where
  "search m [] = m []"
| "search m (x # xs) = (case m (x # xs) of Some r \<Rightarrow> Some r | None \<Rightarrow> search m xs)"

definition matched :: "string \<Rightarrow> unit option" where
  "matched rest = Some ()"

definition closingFence :: "string \<Rightarrow> unit option" where
  "closingFence = wsStar (lit ''```'' matched)"

definition fenceAt :: "string \<Rightarrow> string \<Rightarrow> string option" where
  "fenceAt opener = lit opener (wsStar (lazyGroup closingFence []))"

text \<open>\<^verbatim>\<open>jsonMatch\<close> is the first group of the first expression that matches, if any.\<close>

definition jsonMatch :: "string \<Rightarrow> string option" where
  "jsonMatch extractedContent =
     (case search (fenceAt ''```json'') extractedContent of
        Some g \<Rightarrow> Some g
      | None \<Rightarrow> search (fenceAt ''```'') extractedContent)"

definition jsonContent :: "string \<Rightarrow> string" where
  "jsonContent extractedContent =
     (case jsonMatch extractedContent of Some g \<Rightarrow> g | None \<Rightarrow> extractedContent)"

text \<open>
  The \<^verbatim>\<open>try\<close> block around \<^verbatim>\<open>JSON.parse\<close>. \<^verbatim>\<open>JSON_parse\<close> stands for the built-in: it
  answers the parsed value or the message of its SyntaxError. The \<^verbatim>\<open>catch\<close> answers the
  request with the raw content and that message.
\<close>

datatype parse_failure = Parse_failure (raw_content: string) (parse_error: string)

definition parseInsights ::
  "(string \<Rightarrow> string + 'n jsval) \<Rightarrow> string \<Rightarrow> parse_failure + 'n jsval" where
  "parseInsights JSON_parse extractedContent =
     (case JSON_parse (jsonContent extractedContent) of
        Inl message \<Rightarrow> Inl (Parse_failure extractedContent message)
      | Inr insights \<Rightarrow> Inr insights)"

section \<open>The end of the request: parse, normalize, store\<close>

record 'n role_insights_row =
  row_user_id :: string
  row_job_posting_ids :: "string list"
  row_role_title :: "'n jsval"
  row_seniority_level :: "'n jsval"
  row_industry_context :: "'n jsval"
  row_insights :: "'n validated_insights"

text \<open>
  The three answers of the route after the agent has finished: the answer of the inner
  \<^verbatim>\<open>catch\<close> (status 500, with \<^verbatim>\<open>raw_content\<close> and \<^verbatim>\<open>parse_error\<close>), the answer of the outer
  \<^verbatim>\<open>catch\<close> (status 500) and the success (\<^verbatim>\<open>role_insight_id\<close> and \<^verbatim>\<open>insights\<close>).
\<close>

datatype 'n response =
    Parse_error_response parse_failure
  | Error_response thrown
  | Success_response string "'n validated_insights"

fun status :: "'n response \<Rightarrow> nat" where
  "status (Parse_error_response f) = 500"
| "status (Error_response e) = 500"
| "status (Success_response i v) = 200"

text \<open>
  The insert into \<^verbatim>\<open>role_insights\<close>. The table is the list of its rows. The database is
  not part of the repository: \<^verbatim>\<open>rejects\<close> says with which error it refuses a row, if it
  does, and \<^verbatim>\<open>newId\<close> which id it gives to the row it stores.
\<close>

definition insertRow ::
  "('n role_insights_row \<Rightarrow> string option) \<Rightarrow> ('n role_insights_row list \<Rightarrow> string) \<Rightarrow>
   'n role_insights_row list \<Rightarrow> 'n role_insights_row \<Rightarrow>
   thrown + (string \<times> 'n role_insights_row list)" where
  "insertRow rejects newId table row =
     (case rejects row of
        Some insertError \<Rightarrow> Inl (InsertError insertError)
      | None \<Rightarrow> Inr (newId table, table @ [row]))"

text \<open>
  \<^verbatim>\<open>POST\<close> from the line that reads \<^verbatim>\<open>extractedContent\<close> to its end, with the table of
  \<^verbatim>\<open>role_insights\<close> before and after.
\<close>

definition finishExtraction ::
  "('n \<Rightarrow> string) \<Rightarrow> ('n \<Rightarrow> bool) \<Rightarrow> (string \<Rightarrow> string + 'n jsval) \<Rightarrow>
   ('n role_insights_row \<Rightarrow> string option) \<Rightarrow> ('n role_insights_row list \<Rightarrow> string) \<Rightarrow>
   string \<Rightarrow> string \<Rightarrow> string list \<Rightarrow> string \<Rightarrow>
   'n role_insights_row list \<Rightarrow> 'n response \<times> 'n role_insights_row list" where
  "finishExtraction numberToString numberIsFalsy JSON_parse rejects newId now req_user_id
     job_posting_ids extractedContent table =
     (case parseInsights JSON_parse extractedContent of
        Inl failure \<Rightarrow> (Parse_error_response failure, table)
      | Inr insights \<Rightarrow>
          (case validatedInsights numberToString numberIsFalsy insights now job_posting_ids of
             Inl e \<Rightarrow> (Error_response e, table)
           | Inr v \<Rightarrow>
               (case insertRow rejects newId table
                       \<lparr> row_user_id = req_user_id,
                         row_job_posting_ids = job_posting_ids,
                         row_role_title = role_title v,
                         row_seniority_level = seniority_level v,
                         row_industry_context = industry_context v,
                         row_insights = v \<rparr> of
                  Inl e \<Rightarrow> (Error_response e, table)
                | Inr (newRowId, table') \<Rightarrow> (Success_response newRowId v, table'))))"

section \<open>What the specification says, and sample data\<close>

text \<open>
  The five levels that the extraction prompt of the route asks the agent for
  (\<^verbatim>\<open>"seniority_level": "entry|mid|senior|lead|executive"\<close>).
\<close>

definition seniorityLevels :: "'n jsval list" where
  "seniorityLevels = [JStr ''entry'', JStr ''mid'', JStr ''senior'', JStr ''lead'', JStr ''executive'']"

text \<open>
  The scope of the specification, in its words: the owner of the chunk is the owner of the
  scope, and the set of documents of the scope is empty or holds the chunk's document.
\<close>

definition ownerId :: "document \<Rightarrow> string option" where
  "ownerId chunk = Option.bind (metadata chunk) user_id"

definition documentId :: "document \<Rightarrow> string option" where
  "documentId chunk = Option.bind (metadata chunk) job_posting_id"

definition inScope :: "string \<Rightarrow> string list \<Rightarrow> document \<Rightarrow> bool" where
  "inScope scopeOwner scopeDocuments chunk =
     (ownerId chunk = Some scopeOwner \<and>
      (set scopeDocuments = {} \<or> (\<exists>d \<in> set scopeDocuments. documentId chunk = Some d)))"

text \<open>
  The list coercion of the specification, in its words: an array is mapped to the string
  forms of its elements, trimmed, without the empty strings; a non-empty string is the
  singleton of that string trimmed; everything else is the empty list.
\<close>

definition specCoercion :: "('n \<Rightarrow> string) \<Rightarrow> 'n jsval \<Rightarrow> thrown + string list" where
  "specCoercion numberToString v =
     (case v of
        JArr items \<Rightarrow>
          andThen (mapThrowing (ToString numberToString) items)
            (\<lambda>ss. Inr (filter (\<lambda>s. s \<noteq> []) (map trim ss)))
      | JStr s \<Rightarrow> (if s \<noteq> [] then Inr [trim s] else Inr [])
      | _ \<Rightarrow> Inr [])"

text \<open>
  A store in the manner of the specification's scenario: owner \<^verbatim>\<open>u1\<close> has two chunks of
  \<^verbatim>\<open>doc1\<close> and two of \<^verbatim>\<open>doc2\<close>; one more chunk belongs to \<^verbatim>\<open>u2\<close> and one has no metadata.
\<close>

definition chunkOf :: "string \<Rightarrow> string \<Rightarrow> string \<Rightarrow> document" where
  "chunkOf owner doc content =
     \<lparr> pageContent = content,
       metadata = Some \<lparr> user_id = Some owner, job_posting_id = Some doc \<rparr> \<rparr>"

definition sampleStore :: "string \<Rightarrow> document list" where
  "sampleStore query =
     [chunkOf ''u1'' ''doc1'' ''About the job'',
      chunkOf ''u2'' ''doc9'' ''Another posting'',
      chunkOf ''u1'' ''doc2'' ''Responsibilities'',
      \<lparr> pageContent = ''Untagged'', metadata = None \<rparr>,
      chunkOf ''u1'' ''doc1'' ''Qualifications'',
      chunkOf ''u1'' ''doc2'' ''Benefits'']"

text \<open>
  Four numbers for the examples, with what \<^verbatim>\<open>Number::toString\<close> prints for each and
  with the one of them that is falsy.
\<close>

datatype sample_number = Zero | One | One_and_a_half | Forty_two

fun sampleNumberToString :: "sample_number \<Rightarrow> string" where
  "sampleNumberToString Zero = ''0''"
| "sampleNumberToString One = ''1''"
| "sampleNumberToString One_and_a_half = ''1.5''"
| "sampleNumberToString Forty_two = ''42''"

fun sampleNumberIsFalsy :: "sample_number \<Rightarrow> bool" where
  "sampleNumberIsFalsy Zero = True"
| "sampleNumberIsFalsy n = False"

text \<open>
  A stand-in for \<^verbatim>\<open>JSON.parse\<close> on the texts of the specification's examples: it knows
  the object \<^verbatim>\<open>{"a":1}\<close> and rejects every other text.
\<close>

definition sampleParse :: "string \<Rightarrow> string + sample_number jsval" where
  "sampleParse text =
     (if text = [CHR ''{'', CHR 0x22, CHR ''a'', CHR 0x22, CHR '':'', CHR ''1'', CHR ''}'']
      then Inr (JObj [(''a'', JNum One)])
      else Inl ''Unexpected token'')"

text \<open>A database that refuses no row; the id of a new row tells how many rows came before.\<close>

definition neverRejects :: "'n role_insights_row \<Rightarrow> string option" where
  "neverRejects row = None"

definition rowCountId :: "'n role_insights_row list \<Rightarrow> string" where
  "rowCountId table = ''row-'' @ replicate (length table) (CHR ''i'')"

text \<open>
  The fenced block in plain terms, without matchers. \<open>splitFirst\<close>
  cuts a text at the first occurrence of a pattern, into what is before it and what is
  after it. \<open>interiorAfter\<close> is the text between the first occurrence of an opening fence
  and the next \<^verbatim>\<open>```\<close> after it, trimmed; there is none when the fence does not occur or
  no \<^verbatim>\<open>```\<close> follows it. \<open>fencedBlock\<close> looks for a block opened by \<^verbatim>\<open>```json\<close> and, when there
  is none, for a block opened by \<^verbatim>\<open>```\<close>.
\<close>

fun splitFirst :: "string \<Rightarrow> string \<Rightarrow> (string \<times> string) option" where
  "splitFirst pat [] = (if pat = [] then Some ([], []) else None)"
| "splitFirst pat (x # xs) =
     (if prefix pat (x # xs) then Some ([], drop (length pat) (x # xs))
      else (case splitFirst pat xs of
              None \<Rightarrow> None
            | Some (before, after) \<Rightarrow> Some (x # before, after)))"

definition interiorToFence :: "string \<Rightarrow> string option" where
  "interiorToFence rest =
     (case splitFirst ''```'' rest of
        None \<Rightarrow> None
      | Some (inner, after) \<Rightarrow> Some (trim inner))"

definition interiorAfter :: "string \<Rightarrow> string \<Rightarrow> string option" where
  "interiorAfter opener raw =
     (case splitFirst opener raw of
        None \<Rightarrow> None
      | Some (before, rest) \<Rightarrow> interiorToFence rest)"

definition fencedBlock :: "string \<Rightarrow> string option" where
  "fencedBlock raw =
     (case interiorAfter ''```json'' raw of
        Some interior \<Rightarrow> Some interior
      | None \<Rightarrow> interiorAfter ''```'' raw)"

section \<open>Facts about the helpers\<close>

lemma andThen_Inl [simp]: "andThen (Inl e) f = Inl e"
  by (simp add: andThen_def)

lemma andThen_Inr [simp]: "andThen (Inr x) f = f x"
  by (simp add: andThen_def)

lemma andThen_eq_Inr: "andThen r f = Inr y \<longleftrightarrow> (\<exists>x. r = Inr x \<and> f x = Inr y)"
  by (cases r) simp_all

lemma trim_Nil [simp]: "trim [] = []"
  by (simp add: trim_def)

lemma dropWhile_rev_dropWhile:
  "dropWhile P (rev (dropWhile P (rev (dropWhile P s)))) = rev (dropWhile P (rev (dropWhile P s)))"
proof (cases "dropWhile P (rev (dropWhile P s)) = []")
  case True
  show ?thesis unfolding True by simp
next
  case False
  define t where "t = dropWhile P s"
  define u where "u = dropWhile P (rev t)"
  from False have u: "u \<noteq> []" by (simp add: u_def t_def)
  then have t: "t \<noteq> []" by (auto simp: u_def)
  have "\<not> P (hd t)" using t unfolding t_def by (rule hd_dropWhile)
  moreover have "last u = last (rev t)"
    using u unfolding u_def
    by (metis append_is_Nil_conv last_appendR takeWhile_dropWhile_id)
  ultimately have "\<not> P (hd (rev u))"
    using u t by (simp add: hd_rev last_rev)
  then have "dropWhile P (rev u) = rev u"
    using u by (cases "rev u") auto
  then show ?thesis by (simp add: u_def t_def)
qed

lemma trim_idem [simp]: "trim (trim s) = trim s"
proof -
  have "dropWhile isWhiteSpace (rev (dropWhile isWhiteSpace (trim s))) = dropWhile isWhiteSpace (rev (dropWhile isWhiteSpace s))"
    unfolding trim_def by (simp add: dropWhile_rev_dropWhile dropWhile_idem)
  then show ?thesis by (simp add: trim_def)
qed

lemma trimItem_ToString: "trimItem numberToString item = andThen (ToString numberToString item) (\<lambda>s. Inr (trim s))"
  by (cases item) (simp_all add: trimItem_def)

lemma plainItem_ToString: "plainItem numberToString item = ToString numberToString item"
  by (cases item) (simp_all add: plainItem_def)

lemma mapThrowing_trimItem:
  "mapThrowing (trimItem numberToString) items = andThen (mapThrowing (ToString numberToString) items) (\<lambda>ss. Inr (map trim ss))"
  by (induction items) (auto simp: trimItem_ToString split: sum.splits)

lemma mapThrowing_plainItem: "mapThrowing (plainItem numberToString) items = mapThrowing (ToString numberToString) items"
  by (induction items) (auto simp: plainItem_ToString split: sum.splits)

lemma filter_trim_filter:
  "filter (\<lambda>s. s \<noteq> []) (map trim (filter (\<lambda>s. s \<noteq> []) ss)) = filter (\<lambda>s. s \<noteq> []) (map trim ss)"
  by (induction ss) auto

lemma normalizedArray_nonempty_strings: "normalizedArray numberToString v = Inr xs \<Longrightarrow> [] \<notin> set xs"
  by (cases v) (auto simp: normalizedArray_def andThen_eq_Inr split: if_splits)

lemma arrOrDefault_ok:
  "arrOrDefault numberToString raw sentinel = Inr xs \<Longrightarrow> sentinel \<noteq> [] \<Longrightarrow> xs \<noteq> [] \<and> [] \<notin> set xs"
  by (auto simp: arrOrDefault_def andThen_eq_Inr dest: normalizedArray_nonempty_strings split: if_splits)

lemma lengthOrDefault_ok:
  "lengthOrDefault numberToString raw sentinel = Inr xs \<Longrightarrow> sentinel \<noteq> [] \<Longrightarrow> xs \<noteq> [] \<and> [] \<notin> set xs"
  by (auto simp: lengthOrDefault_def andThen_eq_Inr dest: normalizedArray_nonempty_strings split: if_splits)

lemma normalizedArray_JArr:
  "normalizedArray numberToString (JArr items) =
     andThen (mapThrowing (ToString numberToString) items) (\<lambda>ss. Inr (filter (\<lambda>s. s \<noteq> []) (map trim ss)))"
  by (cases "mapThrowing (ToString numberToString) items") (simp_all add: normalizedArray_def mapThrowing_trimItem)

lemma normalizedArray_part003_JArr:
  "normalizedArray_part003 numberToString (JArr items) =
     andThen (mapThrowing (ToString numberToString) items) (\<lambda>ss. Inr (filter (\<lambda>s. s \<noteq> []) ss))"
  by (simp add: normalizedArray_part003_def mapThrowing_plainItem)

lemma validatedInsights_lists_ok:
  assumes "validatedInsights numberToString numberIsFalsy insights now ids = Inr v"
  shows "list_all (\<lambda>xs. xs \<noteq> [] \<and> [] \<notin> set xs)
           [about_section v, responsibilities_section v, qualifications_section v,
            core_responsibilities v, technical (required_skills v),
            soft_skills (required_skills v), tools_technologies v, key_success_metrics v,
            hiring_signals v, collaboration_aspects v]"
  using assms unfolding validatedInsights_def andThen_eq_Inr
  apply (elim exE conjE)
  apply (drule arrOrDefault_ok lengthOrDefault_ok, simp)+
  apply (simp only: sum.inject)
  apply hypsubst
  apply simp
  done

lemma matchesScope_inScope: "matchesScope owner ids doc = inScope owner ids doc"
  by (cases "metadata doc")
    (auto simp: matchesScope_def inScope_def ownerId_def documentId_def arrayIncludes_def
      Let_def split: option.splits)

lemma filter_matchesScope: "filter (matchesScope owner ids) docs = filter (inScope owner ids) docs"
  by (rule filter_cong) (simp_all add: matchesScope_inScope)

section \<open>The insight normalizer: claims\<close>

text \<open>
  C1. The claim: the normalizer is total; for every input object it returns, without
  throwing, a record whose list fields have at least one element and only non-empty
  strings. Whenever the normalizer returns, its list fields are as claimed
  (\<open>validatedInsights_lists_ok\<close>). It does not always return: on the object
  \<^verbatim>\<open>{"about_section": [{"toString": null}]}\<close> the item is not a string, \<^verbatim>\<open>String(item)\<close>
  finds the item's own \<^verbatim>\<open>toString\<close>, which is not callable, and throws a TypeError, which
  leaves the normalizer and reaches the outer \<^verbatim>\<open>catch\<close> of the route.
\<close>

theorem normalizer_throws_on_own_toString:
  "validatedInsights numberToString numberIsFalsy (JObj [(''about_section'', JArr [JObj [(''toString'', JNull)]])])
     now job_posting_ids = Inl TypeError"
  by (simp add: validatedInsights_def getProp_def arrOrDefault_def
      normalizedArray_def trimItem_def)

text \<open>
  C9. Normalizing the empty object gives \<^verbatim>\<open>["Responsibilities not specified"]\<close> for
  \<^verbatim>\<open>core_responsibilities\<close> and \<^verbatim>\<open>["Not specified in posting"]\<close> for every other list field.
\<close>

theorem sentinel_distinction:
  "validatedInsights numberToString numberIsFalsy (JObj []) now job_posting_ids =
     Inr \<lparr> about_section = [''Not specified in posting''],
           responsibilities_section = [''Not specified in posting''],
           qualifications_section = [''Not specified in posting''],
           role_title = JStr ''Unknown Role'',
           seniority_level = JStr ''mid'',
           industry_context = JStr ''General'',
           core_responsibilities = [''Responsibilities not specified''],
           required_skills = \<lparr> technical = [''Not specified in posting''],
                               soft_skills = [''Not specified in posting''] \<rparr>,
           tools_technologies = [''Not specified in posting''],
           key_success_metrics = [''Not specified in posting''],
           hiring_signals = [''Not specified in posting''],
           collaboration_aspects = [''Not specified in posting''],
           extracted_at = now,
           sources_analyzed = length job_posting_ids \<rparr>"
  by (simp add: validatedInsights_def getProp_def arrOrDefault_def lengthOrDefault_def
      normalizedArray_def optProp_def coalesce_def orElse_def)

text \<open>
  C5. The claim: \<^verbatim>\<open>seniority_level\<close> of a normalized record is one of the five levels, any
  other raw value being replaced by \<^verbatim>\<open>mid\<close>. The route writes
  \<^verbatim>\<open>insights.seniority_level || "mid"\<close> and compares the value with nothing: the raw value
  \<^verbatim>\<open>principal\<close> is kept.
\<close>

theorem seniority_level_outside_enumeration:
  "map_sum id seniority_level
     (validatedInsights sampleNumberToString sampleNumberIsFalsy (JObj [(''seniority_level'', JStr ''principal'')])
        ''2025-01-01T00:00:00.000Z'' [''doc1'']) = Inr (JStr ''principal'')
   \<and> JStr ''principal'' \<notin> set seniorityLevels"
  by (simp add: validatedInsights_def getProp_def arrOrDefault_def lengthOrDefault_def
      normalizedArray_def optProp_def coalesce_def orElse_def seniorityLevels_def)

text \<open>
  C5, as the route has it: in every record that the normalizer returns,
  \<^verbatim>\<open>seniority_level\<close> is the raw value when that is truthy, and \<^verbatim>\<open>mid\<close> when it is absent,
  null, the empty string or another falsy value. So each of the five levels is kept
  when the agent answers it, and so is any other truthy value.
\<close>

theorem seniority_level_raw_or_mid:
  "validatedInsights numberToString numberIsFalsy insights now job_posting_ids = Inr v \<longrightarrow>
     seniority_level v =
       (if truthy numberIsFalsy (propOf insights ''seniority_level'')
        then propOf insights ''seniority_level'' else JStr ''mid'')
     \<and> (propOf insights ''seniority_level'' \<in> set seniorityLevels \<longrightarrow>
          seniority_level v = propOf insights ''seniority_level'')"
proof
  assume r: "validatedInsights numberToString numberIsFalsy insights now job_posting_ids = Inr v"
  then have "getProp insights ''seniority_level'' = Inr (propOf insights ''seniority_level'')"
    unfolding validatedInsights_def andThen_eq_Inr getProp_def by (auto split: if_splits)
  with r have 1: "seniority_level v =
       (if truthy numberIsFalsy (propOf insights ''seniority_level'')
        then propOf insights ''seniority_level'' else JStr ''mid'')"
    unfolding validatedInsights_def andThen_eq_Inr by (auto simp: orElse_def)
  then have "propOf insights ''seniority_level'' \<in> set seniorityLevels \<longrightarrow>
          seniority_level v = propOf insights ''seniority_level''"
    by (auto simp: seniorityLevels_def)
  with 1 show "seniority_level v =
       (if truthy numberIsFalsy (propOf insights ''seniority_level'')
        then propOf insights ''seniority_level'' else JStr ''mid'')
     \<and> (propOf insights ''seniority_level'' \<in> set seniorityLevels \<longrightarrow>
          seniority_level v = propOf insights ''seniority_level'')"
    by simp
qed

theorem seniority_level_raw_or_mid_witness:
  "validatedInsights sampleNumberToString sampleNumberIsFalsy (JObj [(''seniority_level'', JStr ''senior'')]) ''2025-01-01T00:00:00.000Z'' [''doc1''] =
     Inr \<lparr> about_section = [''Not specified in posting''],
           responsibilities_section = [''Not specified in posting''],
           qualifications_section = [''Not specified in posting''],
           role_title = JStr ''Unknown Role'',
           seniority_level = JStr ''senior'',
           industry_context = JStr ''General'',
           core_responsibilities = [''Responsibilities not specified''],
           required_skills = \<lparr> technical = [''Not specified in posting''],
                               soft_skills = [''Not specified in posting''] \<rparr>,
           tools_technologies = [''Not specified in posting''],
           key_success_metrics = [''Not specified in posting''],
           hiring_signals = [''Not specified in posting''],
           collaboration_aspects = [''Not specified in posting''],
           extracted_at = ''2025-01-01T00:00:00.000Z'',
           sources_analyzed = 1 \<rparr>
   \<and> propOf (JObj [(''seniority_level'', JStr ''senior'')]) ''seniority_level'' = JStr ''senior''
   \<and> JStr ''senior'' \<in> set seniorityLevels"
proof -
  have h: "validatedInsights sampleNumberToString sampleNumberIsFalsy (JObj [(''seniority_level'', JStr ''senior'')]) ''2025-01-01T00:00:00.000Z'' [''doc1''] =
     Inr \<lparr> about_section = [''Not specified in posting''],
           responsibilities_section = [''Not specified in posting''],
           qualifications_section = [''Not specified in posting''],
           role_title = JStr ''Unknown Role'',
           seniority_level = JStr ''senior'',
           industry_context = JStr ''General'',
           core_responsibilities = [''Responsibilities not specified''],
           required_skills = \<lparr> technical = [''Not specified in posting''],
                               soft_skills = [''Not specified in posting''] \<rparr>,
           tools_technologies = [''Not specified in posting''],
           key_success_metrics = [''Not specified in posting''],
           hiring_signals = [''Not specified in posting''],
           collaboration_aspects = [''Not specified in posting''],
           extracted_at = ''2025-01-01T00:00:00.000Z'',
           sources_analyzed = 1 \<rparr>"
    by (simp add: validatedInsights_def getProp_def arrOrDefault_def lengthOrDefault_def
        normalizedArray_def optProp_def coalesce_def orElse_def)
  have l: "JStr ''senior'' \<in> set seniorityLevels"
    by (simp add: seniorityLevels_def)
  show ?thesis
    using seniority_level_raw_or_mid [of sampleNumberToString sampleNumberIsFalsy
        "JObj [(''seniority_level'', JStr ''senior'')]"
        "''2025-01-01T00:00:00.000Z''" "[''doc1'']"] h l
    by simp
qed


text \<open>
  C4. The claim: an array becomes the trimmed string forms of its elements without the
  empty ones; a non-empty string becomes the singleton of that string trimmed;
  everything else becomes the empty list. \<open>specCoercion\<close> is the claim in these words. The
  route tests \<^verbatim>\<open>value.trim()\<close>, not \<^verbatim>\<open>value\<close>: a string of white space only is not empty,
  and it becomes the empty list, not the singleton of the empty string.
\<close>

theorem whitespace_string_not_promoted:
  "''  '' \<noteq> [] \<and> normalizedArray sampleNumberToString (JStr ''  '') = Inr []
   \<and> specCoercion sampleNumberToString (JStr ''  '') = Inr [[]]"
  by (simp add: normalizedArray_def specCoercion_def trim_def isWhiteSpace_def)

text \<open>
  C4, as the route has it: an array whose elements all have a string form becomes those
  forms trimmed, without the ones that are empty after trimming, in the order of the
  array and with its duplicates; a string that is non-empty after trimming becomes the
  singleton of that string trimmed; a string that is empty or all white space, and
  every value that is neither an array nor a string, becomes the empty list. The string
  form is what \<^verbatim>\<open>String\<close> answers: for a number, whatever the platform prints for it.
\<close>

theorem list_field_coercion:
  "(mapThrowing (ToString numberToString) items = Inr ss \<longrightarrow>
      normalizedArray numberToString (JArr items) = Inr (filter (\<lambda>s. s \<noteq> []) (map trim ss)))
   \<and> (trim s \<noteq> [] \<longrightarrow> normalizedArray numberToString (JStr s) = Inr [trim s])
   \<and> (trim s = [] \<longrightarrow> normalizedArray numberToString (JStr s) = Inr [])
   \<and> normalizedArray numberToString JUndefined = Inr []
   \<and> normalizedArray numberToString JNull = Inr []
   \<and> normalizedArray numberToString (JBool b) = Inr []
   \<and> normalizedArray numberToString (JNum n) = Inr []
   \<and> normalizedArray numberToString (JObj kvs) = Inr []"
  by (simp add: normalizedArray_JArr) (simp add: normalizedArray_def)

theorem list_field_coercion_witness:
  "mapThrowing (ToString sampleNumberToString) [JStr ''  Python '', JStr [], JNum Forty_two] = Inr [''  Python '', [], ''42'']
   \<and> normalizedArray sampleNumberToString (JArr [JStr ''  Python '', JStr [], JNum Forty_two]) = Inr [''Python'', ''42'']
   \<and> trim ''Single paragraph.'' \<noteq> []
   \<and> normalizedArray sampleNumberToString (JStr ''Single paragraph.'') = Inr [''Single paragraph.'']
   \<and> trim '' '' = [] \<and> normalizedArray sampleNumberToString (JStr '' '') = Inr []
   \<and> mapThrowing (ToString sampleNumberToString) [JNum One_and_a_half, JNull, JBool True] =
       Inr [''1.5'', ''null'', ''true'']
   \<and> normalizedArray sampleNumberToString (JArr [JNum One_and_a_half, JNull, JBool True]) =
       Inr [''1.5'', ''null'', ''true'']"
proof -
  have c: "mapThrowing (ToString sampleNumberToString) [JNum One_and_a_half, JNull, JBool True] =
       Inr [''1.5'', ''null'', ''true'']"
    by code_simp
  have d: "trim ''1.5'' = ''1.5''" "trim ''null'' = ''null''" "trim ''true'' = ''true''"
    by code_simp+
  have a: "mapThrowing (ToString sampleNumberToString) [JStr ''  Python '', JStr [], JNum Forty_two] = Inr [''  Python '', [], ''42'']"
    by code_simp
  have b: "trim ''  Python '' = ''Python''" "trim ''42'' = ''42''"
    "trim ''Single paragraph.'' = ''Single paragraph.''" "trim '' '' = []"
    by code_simp+
  show ?thesis
    using list_field_coercion [of sampleNumberToString "[JStr ''  Python '', JStr [], JNum Forty_two]"
        "[''  Python '', [], ''42'']" "''Single paragraph.''"]
      list_field_coercion [of sampleNumberToString "[JNum One_and_a_half, JNull, JBool True]"
        "[''1.5'', ''null'', ''true'']" "'' ''"] a b c d
    by simp
qed

text \<open>
  C10. The claim: \<^verbatim>\<open>normalizedArray\<close> of \<^verbatim>\<open>app/api/extract/route.ts\<close> and
  \<^verbatim>\<open>normalizedArray\<close> of the copy of the route in \<^verbatim>\<open>src/unnamed/part_003\<close> return the same
  list on every input. The copy does not trim the items of an array: on \<^verbatim>\<open>[" a "]\<close> the
  route returns \<^verbatim>\<open>["a"]\<close> and the copy \<^verbatim>\<open>[" a "]\<close>.
\<close>

theorem copies_differ_on_padded_item:
  "normalizedArray sampleNumberToString (JArr [JStr '' a '']) = Inr [''a'']
   \<and> normalizedArray_part003 sampleNumberToString (JArr [JStr '' a '']) = Inr ['' a '']"
  by (simp add: normalizedArray_def normalizedArray_part003_def trimItem_def plainItem_def
      trim_def isWhiteSpace_def)

text \<open>
  C10, as the two files have it: on every input the result of the route is the result
  of the copy with each string trimmed and the strings that are then empty removed, and
  the one throws where the other throws; on every input that is not an array the two
  return the same list.
\<close>

theorem normalizedArray_trims_part003:
  "normalizedArray numberToString v =
     andThen (normalizedArray_part003 numberToString v) (\<lambda>ss. Inr (filter (\<lambda>s. s \<noteq> []) (map trim ss)))
   \<and> normalizedArray numberToString JUndefined = normalizedArray_part003 numberToString JUndefined
   \<and> normalizedArray numberToString JNull = normalizedArray_part003 numberToString JNull
   \<and> normalizedArray numberToString (JBool b) = normalizedArray_part003 numberToString (JBool b)
   \<and> normalizedArray numberToString (JNum n) = normalizedArray_part003 numberToString (JNum n)
   \<and> normalizedArray numberToString (JStr s) = normalizedArray_part003 numberToString (JStr s)
   \<and> normalizedArray numberToString (JObj kvs) = normalizedArray_part003 numberToString (JObj kvs)"
proof -
  have "normalizedArray numberToString v =
     andThen (normalizedArray_part003 numberToString v) (\<lambda>ss. Inr (filter (\<lambda>s. s \<noteq> []) (map trim ss)))"
  proof (cases v)
    case (JArr items)
    show ?thesis unfolding JArr normalizedArray_JArr normalizedArray_part003_JArr
      by (cases "mapThrowing (ToString numberToString) items") (simp_all add: filter_trim_filter)
  qed (simp_all add: normalizedArray_def normalizedArray_part003_def)
  then show ?thesis
    by (simp add: normalizedArray_def normalizedArray_part003_def)
qed

section \<open>The scoped retriever: claims\<close>

text \<open>
  C2. When the store returns at least one candidate and the filter keeps none, the
  retriever returns the first 20 candidates of the store, in the store's order, which is
  not the empty list, and writes the warning of the fallback.
\<close>

theorem retriever_fallback:
  "baseRetriever query \<noteq> [] \<and> filter (inScope req_user_id job_posting_ids) (baseRetriever query) = [] \<longrightarrow>
     getRelevantDocuments baseRetriever req_user_id job_posting_ids query =
       (take 20 (baseRetriever query), [Warn_post_filter_fallback])
     \<and> fst (getRelevantDocuments baseRetriever req_user_id job_posting_ids query) \<noteq> []"
  by (simp add: getRelevantDocuments_def Let_def filter_matchesScope)

theorem retriever_fallback_witness:
  "sampleStore ''about'' \<noteq> [] \<and> filter (inScope ''u3'' [''doc1'']) (sampleStore ''about'') = []
   \<and> getRelevantDocuments sampleStore ''u3'' [''doc1''] ''about'' =
       (sampleStore ''about'', [Warn_post_filter_fallback])"
proof -
  have h: "sampleStore ''about'' \<noteq> [] \<and> filter (inScope ''u3'' [''doc1'']) (sampleStore ''about'') = []"
    by (simp add: sampleStore_def chunkOf_def inScope_def ownerId_def documentId_def)
  have l: "take 20 (sampleStore ''about'') = sampleStore ''about''"
    by (simp add: sampleStore_def)
  show ?thesis
    using retriever_fallback [of sampleStore "''about''" "''u3''" "[''doc1'']"] h l by simp
qed

text \<open>
  C3. The claim: when the store returns no candidate, the retriever returns the empty
  list without applying the fallback, and the warning is written only when the filter,
  not the absence of data, emptied the result. The route tests \<^verbatim>\<open>filtered.length === 0\<close>
  only: on an empty store it takes the fallback branch and writes the warning.
\<close>

theorem empty_store_takes_fallback:
  "getRelevantDocuments emptyStore ''u1'' [''doc1''] ''about'' = ([], [Warn_post_filter_fallback])"
  by (simp add: getRelevantDocuments_def emptyStore_def)

text \<open>
  C3, as the route has it: when the store returns no candidate, the retriever returns
  the empty list, through the fallback branch and with its warning; the warning is
  written exactly when the filter keeps no candidate, whether or not the store had any.
\<close>

theorem empty_store_returns_empty:
  "(baseRetriever query = [] \<longrightarrow>
      getRelevantDocuments baseRetriever req_user_id job_posting_ids query =
        ([], [Warn_post_filter_fallback]))
   \<and> (Warn_post_filter_fallback \<in> set (snd (getRelevantDocuments baseRetriever req_user_id job_posting_ids query))
        \<longleftrightarrow> filter (inScope req_user_id job_posting_ids) (baseRetriever query) = [])"
  by (simp add: getRelevantDocuments_def Let_def filter_matchesScope)

theorem empty_store_returns_empty_witness:
  "emptyStore ''about'' = []
   \<and> getRelevantDocuments emptyStore ''u1'' [] ''about'' = ([], [Warn_post_filter_fallback])
   \<and> filter (inScope ''u1'' []) (emptyStore ''about'') = []"
  using empty_store_returns_empty [of emptyStore "''about''" "''u1''" "[]"]
  by (simp add: emptyStore_def)

text \<open>
  C8. When at least one candidate is in the scope, the retriever returns the candidates
  whose owner is the owner of the scope and whose document is one of the scope's
  documents (any document when the scope names none), in the store's order, cut to the
  first 20: the result has at most 20 chunks, is a subsequence of the store's answer,
  and the warning of the fallback is not written.
\<close>

theorem retriever_correct_scoping:
  "(\<exists>chunk \<in> set (baseRetriever query). inScope req_user_id job_posting_ids chunk) \<longrightarrow>
     getRelevantDocuments baseRetriever req_user_id job_posting_ids query =
       (take 20 (filter (inScope req_user_id job_posting_ids) (baseRetriever query)),
        [Log_filtered (length (filter (inScope req_user_id job_posting_ids) (baseRetriever query)))
           (length (baseRetriever query))])
     \<and> length (fst (getRelevantDocuments baseRetriever req_user_id job_posting_ids query)) \<le> 20
     \<and> subseq (fst (getRelevantDocuments baseRetriever req_user_id job_posting_ids query))
          (baseRetriever query)
     \<and> Warn_post_filter_fallback \<notin>
          set (snd (getRelevantDocuments baseRetriever req_user_id job_posting_ids query))"
proof
  assume "\<exists>chunk \<in> set (baseRetriever query). inScope req_user_id job_posting_ids chunk"
  then have ne: "filter (inScope req_user_id job_posting_ids) (baseRetriever query) \<noteq> []"
    by (auto simp: filter_empty_conv)
  have sub: "subseq (take 20 (filter (inScope req_user_id job_posting_ids) (baseRetriever query)))
               (baseRetriever query)"
    by (rule subseq_order.trans [OF prefix_imp_subseq [OF take_is_prefix] subseq_filter_left])
  from ne sub show "getRelevantDocuments baseRetriever req_user_id job_posting_ids query =
       (take 20 (filter (inScope req_user_id job_posting_ids) (baseRetriever query)),
        [Log_filtered (length (filter (inScope req_user_id job_posting_ids) (baseRetriever query)))
           (length (baseRetriever query))])
     \<and> length (fst (getRelevantDocuments baseRetriever req_user_id job_posting_ids query)) \<le> 20
     \<and> subseq (fst (getRelevantDocuments baseRetriever req_user_id job_posting_ids query))
          (baseRetriever query)
     \<and> Warn_post_filter_fallback \<notin>
          set (snd (getRelevantDocuments baseRetriever req_user_id job_posting_ids query))"
    by (simp add: getRelevantDocuments_def Let_def filter_matchesScope)
qed

theorem retriever_correct_scoping_witness:
  "inScope ''u1'' [''doc1''] (chunkOf ''u1'' ''doc1'' ''About the job'')
   \<and> chunkOf ''u1'' ''doc1'' ''About the job'' \<in> set (sampleStore ''about'')
   \<and> getRelevantDocuments sampleStore ''u1'' [''doc1''] ''about'' =
       ([chunkOf ''u1'' ''doc1'' ''About the job'', chunkOf ''u1'' ''doc1'' ''Qualifications''],
        [Log_filtered 2 6])"
proof -
  have m: "chunkOf ''u1'' ''doc1'' ''About the job'' \<in> set (sampleStore ''about'')"
    by (simp add: sampleStore_def)
  have s: "inScope ''u1'' [''doc1''] (chunkOf ''u1'' ''doc1'' ''About the job'')"
    by (simp add: chunkOf_def inScope_def ownerId_def documentId_def)
  have f: "filter (inScope ''u1'' [''doc1'']) (sampleStore ''about'') =
      [chunkOf ''u1'' ''doc1'' ''About the job'', chunkOf ''u1'' ''doc1'' ''Qualifications'']"
    by (simp add: sampleStore_def chunkOf_def inScope_def ownerId_def documentId_def)
  have l: "length (sampleStore ''about'') = 6"
    by (simp add: sampleStore_def)
  from m s have "\<exists>chunk \<in> set (sampleStore ''about''). inScope ''u1'' [''doc1''] chunk"
    by blast
  with retriever_correct_scoping [of sampleStore "''about''" "''u1''" "[''doc1'']"] m s f l
  show ?thesis by simp
qed

section \<open>Facts about the matchers of the response parser\<close>

lemma lit_prefix: "lit p k s = (if prefix p s then k (drop (length p) s) else None)"
  by (induction p k s rule: lit.induct) simp_all

lemma wsStar_dropWhile:
  assumes "\<And>x xs. isWhiteSpace x \<Longrightarrow> k (x # xs) = None"
  shows "wsStar k t = k (dropWhile isWhiteSpace t)"
  by (induction t) (auto simp: assms split: option.splits)

lemma backtick_not_space: "\<not> isWhiteSpace (CHR 0x60)"
  by (simp add: isWhiteSpace_def)

lemma closingFence_eq:
  "closingFence t = (if prefix ''```'' (dropWhile isWhiteSpace t) then Some () else None)"
proof -
  have "wsStar (lit ''```'' matched) t = lit ''```'' matched (dropWhile isWhiteSpace t)"
    by (rule wsStar_dropWhile) (auto simp: backtick_not_space)
  then show ?thesis
    by (simp add: closingFence_def lit_prefix matched_def)
qed

lemma closingFence_space: "isWhiteSpace x \<Longrightarrow> closingFence (x # xs) = closingFence xs"
  by (simp add: closingFence_eq)

lemma all_le_Suc_shift: "(\<forall>n \<le> Suc L. Q n) \<longleftrightarrow> Q 0 \<and> (\<forall>n \<le> L. Q (Suc n))"
proof (intro iffI conjI allI impI)
  fix n assume "Q 0 \<and> (\<forall>n \<le> L. Q (Suc n))" and "n \<le> Suc L"
  then show "Q n" by (cases n) simp_all
qed simp_all

lemma lazyGroup_None:
  "lazyGroup k acc s = None \<longleftrightarrow> (\<forall>n \<le> length s. k (drop n s) = None)"
proof (induction s arbitrary: acc)
  case Nil
  show ?case by (simp split: option.splits)
next
  case (Cons x xs)
  show ?case
    by (simp add: Cons.IH all_le_Suc_shift split: option.splits)
qed

lemma lazyGroup_take:
  "n \<le> length s \<Longrightarrow> (\<forall>i < n. k (drop i s) = None) \<Longrightarrow> k (drop n s) = Some u \<Longrightarrow>
     lazyGroup k acc s = Some (rev acc @ take n s)"
proof (induction s arbitrary: acc n)
  case Nil
  then show ?case by simp
next
  case (Cons x xs)
  show ?case
  proof (cases n)
    case 0
    with Cons.prems show ?thesis by simp
  next
    case (Suc m)
    from Cons.prems Suc have k0: "k (x # xs) = None" by force
    have "lazyGroup k (x # acc) xs = Some (rev (x # acc) @ take m xs)"
    proof (rule Cons.IH)
      show "m \<le> length xs" using Cons.prems Suc by simp
      show "\<forall>i<m. k (drop i xs) = None"
      proof (intro allI impI)
        fix i assume "i < m"
        then have "Suc i < n" using Suc by simp
        then have "k (drop (Suc i) (x # xs)) = None" using Cons.prems by blast
        then show "k (drop i xs) = None" by simp
      qed
      show "k (drop m xs) = Some u" using Cons.prems Suc by simp
    qed
    with k0 Suc show ?thesis by simp
  qed
qed

lemma closingFence_drop_space:
  "(\<forall>j \<le> length (dropWhile isWhiteSpace s). closingFence (drop j (dropWhile isWhiteSpace s)) = None)
     \<Longrightarrow> n \<le> length s \<Longrightarrow> closingFence (drop n s) = None"
proof (induction s arbitrary: n)
  case Nil
  then show ?case by simp
next
  case (Cons x xs)
  show ?case
  proof (cases "isWhiteSpace x")
    case False
    with Cons.prems show ?thesis by simp
  next
    case True
    with Cons.prems have h: "\<forall>j \<le> length (dropWhile isWhiteSpace xs).
        closingFence (drop j (dropWhile isWhiteSpace xs)) = None"
      by simp
    show ?thesis
    proof (cases n)
      case 0
      have "closingFence (drop 0 xs) = None"
        by (rule Cons.IH [OF h]) simp
      with 0 True show ?thesis by (simp add: closingFence_space)
    next
      case (Suc m)
      have "closingFence (drop m xs) = None"
        by (rule Cons.IH [OF h]) (use Cons.prems Suc in simp)
      with Suc show ?thesis by simp
    qed
  qed
qed

lemma lazyGroup_dropWhile_None:
  "lazyGroup closingFence [] (dropWhile isWhiteSpace s) = None \<Longrightarrow>
     lazyGroup closingFence [] s = None"
  unfolding lazyGroup_None using closingFence_drop_space by blast

lemma wsStar_lazyGroup:
  "wsStar (lazyGroup closingFence []) t = lazyGroup closingFence [] (dropWhile isWhiteSpace t)"
proof (induction t)
  case Nil
  show ?case by simp
next
  case (Cons x xs)
  show ?case
  proof (cases "isWhiteSpace x")
    case False
    then show ?thesis by simp
  next
    case True
    show ?thesis
    proof (cases "lazyGroup closingFence [] (dropWhile isWhiteSpace xs)")
      case (Some r)
      with True Cons.IH show ?thesis by simp
    next
      case None
      have "lazyGroup closingFence [] (dropWhile isWhiteSpace (x # xs)) = None"
        using None True by simp
      then have "lazyGroup closingFence [] (x # xs) = None"
        by (rule lazyGroup_dropWhile_None)
      with True None Cons.IH show ?thesis by simp
    qed
  qed
qed

lemma fenceAt_eq:
  "fenceAt opener t =
     (if prefix opener t
      then lazyGroup closingFence [] (dropWhile isWhiteSpace (drop (length opener) t))
      else None)"
  by (simp add: fenceAt_def lit_prefix wsStar_lazyGroup)

lemma search_Some_drop: "search m s = Some r \<Longrightarrow> \<exists>i \<le> length s. m (drop i s) = Some r"
proof (induction s)
  case Nil
  then show ?case by simp
next
  case (Cons x xs)
  show ?case
  proof (cases "m (x # xs)")
    case (Some r')
    with Cons.prems have "m (drop 0 (x # xs)) = Some r" by simp
    then show ?thesis by (intro exI [of _ 0]) simp
  next
    case None
    with Cons.prems have "search m xs = Some r" by simp
    from Cons.IH [OF this] obtain i where "i \<le> length xs" and "m (drop i xs) = Some r"
      by (elim exE conjE)
    then show ?thesis by (intro exI [of _ "Suc i"]) simp
  qed
qed

lemma dropWhile_append_stop: "\<not> P y \<Longrightarrow> dropWhile P (xs @ y # ys) = dropWhile P xs @ y # ys"
  by (induction xs) simp_all

lemma trim_split:
  "dropWhile isWhiteSpace s = trim s @ rev (takeWhile isWhiteSpace (rev (dropWhile isWhiteSpace s)))"
proof -
  define d where "d = rev (dropWhile isWhiteSpace s)"
  have "rev d = rev (takeWhile isWhiteSpace d @ dropWhile isWhiteSpace d)"
    by (simp only: takeWhile_dropWhile_id)
  also have "\<dots> = rev (dropWhile isWhiteSpace d) @ rev (takeWhile isWhiteSpace d)"
    by (rule rev_append)
  finally show ?thesis
    unfolding d_def trim_def by (simp only: rev_rev_ident)
qed

lemma trim_last: "trim s \<noteq> [] \<Longrightarrow> \<not> isWhiteSpace (last (trim s))"
  unfolding trim_def by (simp add: last_rev hd_dropWhile)

lemma search_Some_if:
  "i \<le> length s \<Longrightarrow> m (drop i s) = Some r \<Longrightarrow> search m s \<noteq> None"
proof (induction s arbitrary: i)
  case Nil
  then show ?case by simp
next
  case (Cons x xs)
  show ?case
  proof (cases i)
    case 0
    with Cons.prems show ?thesis by simp
  next
    case (Suc j)
    with Cons.prems have "search m xs \<noteq> None"
      by (intro Cons.IH [of j]) simp_all
    then show ?thesis by (simp split: option.splits)
  qed
qed

lemma fenceAt_two_fences: "fenceAt ''```'' (''```'' @ mid @ ''```'' @ post) \<noteq> None"
proof -
  define s where "s = mid @ ''```'' @ post"
  have "drop (length mid) s = ''```'' @ post"
    by (simp add: s_def)
  then have c: "closingFence (drop (length mid) s) = Some ()"
    by (simp add: closingFence_eq backtick_not_space)
  have len: "length mid \<le> length s"
    by (simp add: s_def)
  have "\<not> (\<forall>n \<le> length s. closingFence (drop n s) = None)"
  proof
    assume a: "\<forall>n \<le> length s. closingFence (drop n s) = None"
    have "closingFence (drop (length mid) s) = None"
      by (rule a [rule_format, OF len])
    with c show False by simp
  qed
  then have full: "lazyGroup closingFence [] s \<noteq> None"
    unfolding lazyGroup_None .
  have ne: "lazyGroup closingFence [] (dropWhile isWhiteSpace s) \<noteq> None"
  proof
    assume "lazyGroup closingFence [] (dropWhile isWhiteSpace s) = None"
    then have "lazyGroup closingFence [] s = None"
      by (rule lazyGroup_dropWhile_None)
    with full show False by (rule notE)
  qed
  have f: "fenceAt ''```'' (''```'' @ s) = lazyGroup closingFence [] (dropWhile isWhiteSpace s)"
    by (simp add: fenceAt_eq)
  show ?thesis
    unfolding s_def [symmetric] f by (rule ne)
qed

lemma two_fences_found:
  "jsonMatch (pre @ ''```'' @ mid @ ''```'' @ post) \<noteq> None"
proof -
  obtain r where r: "fenceAt ''```'' (''```'' @ mid @ ''```'' @ post) = Some r"
    using fenceAt_two_fences [of mid post] by (cases "fenceAt ''```'' (''```'' @ mid @ ''```'' @ post)") auto
  have "search (fenceAt ''```'') (pre @ ''```'' @ mid @ ''```'' @ post) \<noteq> None"
    by (rule search_Some_if [where i = "length pre" and r = r]) (use r in simp_all)
  then show ?thesis
    by (simp add: jsonMatch_def split: option.splits)
qed

lemma closingFence_Some_fence:
  assumes "closingFence t = Some u"
  shows "\<exists>a b. t = a @ ''```'' @ b"
proof -
  from assms have "prefix ''```'' (dropWhile isWhiteSpace t)"
    by (simp add: closingFence_eq split: if_splits)
  then obtain b where eq: "dropWhile isWhiteSpace t = ''```'' @ b"
    unfolding prefix_def by (elim exE)
  have "takeWhile isWhiteSpace t @ dropWhile isWhiteSpace t = t"
    by (rule takeWhile_dropWhile_id)
  then have "takeWhile isWhiteSpace t @ ''```'' @ b = t"
    unfolding eq .
  then have "t = takeWhile isWhiteSpace t @ ''```'' @ b"
    by (rule sym)
  then show ?thesis by (intro exI)
qed

lemma lazyGroup_Some_fence:
  assumes "lazyGroup closingFence acc t = Some r"
  shows "\<exists>a b. t = a @ ''```'' @ b"
proof -
  from assms have "lazyGroup closingFence acc t \<noteq> None"
    by simp
  then have "\<not> (\<forall>n \<le> length t. closingFence (drop n t) = None)"
    unfolding lazyGroup_None .
  then obtain n where "closingFence (drop n t) \<noteq> None"
    by blast
  then obtain u where "closingFence (drop n t) = Some u"
    by (cases "closingFence (drop n t)") simp_all
  from closingFence_Some_fence [OF this] obtain a b where eq: "drop n t = a @ ''```'' @ b"
    by (elim exE)
  have "take n t @ drop n t = t"
    by (rule append_take_drop_id)
  then have "take n t @ a @ ''```'' @ b = t"
    unfolding eq .
  then have "t = (take n t @ a) @ ''```'' @ b"
    by (simp only: append_assoc)
  then show ?thesis by (intro exI)
qed

lemma fenceAt_Some_fences:
  assumes "fenceAt (''```'' @ tag) t = Some r"
  shows "\<exists>mid post. t = ''```'' @ mid @ ''```'' @ post"
proof -
  define rest where "rest = drop (length (''```'' @ tag)) t"
  from assms have p: "prefix (''```'' @ tag) t"
    and l: "lazyGroup closingFence [] (dropWhile isWhiteSpace rest) = Some r"
    unfolding rest_def by (simp_all add: fenceAt_eq split: if_splits)
  from lazyGroup_Some_fence [OF l] obtain a b where eq: "dropWhile isWhiteSpace rest = a @ ''```'' @ b"
    by (elim exE)
  have "takeWhile isWhiteSpace rest @ dropWhile isWhiteSpace rest = rest"
    by (rule takeWhile_dropWhile_id)
  then have r: "rest = takeWhile isWhiteSpace rest @ a @ ''```'' @ b"
    unfolding eq by (rule sym)
  from p obtain zs where zs: "t = (''```'' @ tag) @ zs"
    unfolding prefix_def by (elim exE)
  then have "rest = zs"
    unfolding rest_def by simp
  with zs have "t = (''```'' @ tag) @ rest" by simp
  then have "t = (''```'' @ tag) @ takeWhile isWhiteSpace rest @ a @ ''```'' @ b"
    using r by (simp only:)
  then have "t = ''```'' @ (tag @ takeWhile isWhiteSpace rest @ a) @ ''```'' @ b"
    by (simp only: append_assoc)
  then show ?thesis by (intro exI)
qed

lemma search_fenceAt_fences:
  assumes "search (fenceAt (''```'' @ tag)) s = Some r"
  shows "\<exists>pre mid post. s = pre @ ''```'' @ mid @ ''```'' @ post"
proof -
  from search_Some_drop [OF assms] obtain i where "fenceAt (''```'' @ tag) (drop i s) = Some r"
    by (elim exE conjE)
  from fenceAt_Some_fences [OF this] obtain mid post where eq: "drop i s = ''```'' @ mid @ ''```'' @ post"
    by (elim exE)
  have "take i s @ drop i s = s"
    by (rule append_take_drop_id)
  then have "take i s @ ''```'' @ mid @ ''```'' @ post = s"
    unfolding eq .
  then have "s = take i s @ ''```'' @ mid @ ''```'' @ post"
    by (rule sym)
  then show ?thesis by (intro exI)
qed

lemma jsonMatch_Some_fences:
  assumes "jsonMatch s = Some r"
  shows "\<exists>pre mid post. s = pre @ ''```'' @ mid @ ''```'' @ post"
proof (cases "search (fenceAt ''```json'') s")
  case (Some g)
  then have "search (fenceAt (''```'' @ ''json'')) s = Some g" by simp
  then show ?thesis by (rule search_fenceAt_fences)
next
  case None
  with assms have "search (fenceAt (''```'' @ [])) s = Some r"
    by (simp add: jsonMatch_def)
  then show ?thesis by (rule search_fenceAt_fences)
qed

lemma jsonMatch_found_iff:
  "jsonMatch raw \<noteq> None \<longleftrightarrow> (\<exists>pre mid post. raw = pre @ ''```'' @ mid @ ''```'' @ post)"
proof
  assume "jsonMatch raw \<noteq> None"
  then obtain r where "jsonMatch raw = Some r" by auto
  then show "\<exists>pre mid post. raw = pre @ ''```'' @ mid @ ''```'' @ post"
    by (rule jsonMatch_Some_fences)
next
  assume "\<exists>pre mid post. raw = pre @ ''```'' @ mid @ ''```'' @ post"
  then obtain pre mid post where "raw = pre @ ''```'' @ mid @ ''```'' @ post" by blast
  then show "jsonMatch raw \<noteq> None"
    using two_fences_found [of pre mid post] by simp
qed

lemma parseInsights_eq:
  "parseInsights JSON_parse raw = map_sum (Parse_failure raw) id (JSON_parse (jsonContent raw))"
  by (cases "JSON_parse (jsonContent raw)") (simp_all add: parseInsights_def)

lemma example_fenced:
  \<open>jsonContent ''```json\<newline>{"a":1}\<newline>```'' = ''{"a":1}''\<close>
  by code_simp

lemma example_bare:
  \<open>jsonContent ''{"a":1}'' = ''{"a":1}''\<close>
  by code_simp

lemma example_not_json: "jsonContent ''not json'' = ''not json''"
  by code_simp

lemma splitFirst_None: "splitFirst pat s = None \<longleftrightarrow> \<not> sublist pat s"
proof (induction s)
  case Nil
  show ?case by simp
next
  case (Cons x xs)
  show ?case
  proof (cases "prefix pat (x # xs)")
    case True
    then show ?thesis by (simp add: sublist_Cons_right)
  next
    case False
    then have "(splitFirst pat (x # xs) = None) = (splitFirst pat xs = None)"
      by (simp split: option.splits)
    also have "\<dots> = (\<not> sublist pat xs)" by (rule Cons.IH)
    also have "\<dots> = (\<not> sublist pat (x # xs))"
      using False by (simp add: sublist_Cons_right)
    finally show ?thesis .
  qed
qed

lemma splitFirst_Some:
  "splitFirst pat s = Some (a, b) \<Longrightarrow>
     s = a @ pat @ b \<and> (\<forall>k < length a. \<not> prefix pat (drop k s))"
proof (induction s arbitrary: a b)
  case Nil
  then show ?case by (simp split: if_splits)
next
  case (Cons x xs)
  show ?case
  proof (cases "prefix pat (x # xs)")
    case True
    from Cons.prems True have a: "a = []" and b: "b = drop (length pat) (x # xs)"
      by simp_all
    from True have eq: "x # xs = pat @ drop (length pat) (x # xs)"
      by (auto simp: prefix_def)
    show ?thesis
      unfolding a b
    proof (intro conjI)
      show "x # xs = [] @ pat @ drop (length pat) (x # xs)"
        by (simp only: append_Nil) (rule eq)
      show "\<forall>k < length []. \<not> prefix pat (drop k (x # xs))"
        by simp
    qed
  next
    case False
    with Cons.prems obtain a' where s: "splitFirst pat xs = Some (a', b)" and a: "a = x # a'"
      by (auto split: option.splits)
    note ih = Cons.IH [OF s]
    have eq: "xs = a' @ pat @ b"
      by (rule ih [THEN conjunct1])
    have no: "\<forall>k < length a'. \<not> prefix pat (drop k xs)"
      by (rule ih [THEN conjunct2])
    have "\<forall>k < length a. \<not> prefix pat (drop k (x # xs))"
    proof (intro allI impI)
      fix k assume k: "k < length a"
      show "\<not> prefix pat (drop k (x # xs))"
      proof (cases k)
        case 0
        with False show ?thesis by simp
      next
        case (Suc j)
        with k a have j: "j < length a'" by simp
        have "\<not> prefix pat (drop j xs)" by (rule no [rule_format, OF j])
        with Suc show ?thesis by simp
      qed
    qed
    moreover from eq a have "x # xs = a @ pat @ b"
      by simp
    ultimately show ?thesis by (intro conjI)
  qed
qed

lemma takeWhile_append_stop: "\<not> P y \<Longrightarrow> takeWhile P (xs @ y # ys) = takeWhile P xs"
  by (induction xs) simp_all

lemma length_takeWhile_less:
  "x \<in> set d \<Longrightarrow> \<not> P x \<Longrightarrow> length (takeWhile P (d @ e)) < length d"
  by (induction d) auto

lemma lazyGroup_interiorToFence:
  "lazyGroup closingFence [] (dropWhile isWhiteSpace rest) = interiorToFence rest"
proof (cases "splitFirst ''```'' rest")
  case None
  then have no: "\<not> sublist ''```'' rest"
    unfolding splitFirst_None .
  have "lazyGroup closingFence [] (dropWhile isWhiteSpace rest) = None"
  proof (cases "lazyGroup closingFence [] (dropWhile isWhiteSpace rest)")
    case None
    then show ?thesis .
  next
    case (Some r)
    from lazyGroup_Some_fence [OF Some] obtain a b
      where "dropWhile isWhiteSpace rest = a @ ''```'' @ b"
      by (elim exE)
    then have "sublist ''```'' (dropWhile isWhiteSpace rest)"
      by (simp only: sublist_appendI)
    then have "sublist ''```'' rest"
      by (rule sublist_order.order.trans [OF _ sublist_dropWhile])
    with no show ?thesis by (rule notE)
  qed
  with None show ?thesis by (simp add: interiorToFence_def)
next
  case (Some p)
  obtain inner after where p: "p = (inner, after)" by (cases p)
  note sf = splitFirst_Some [OF Some [unfolded p]]
  have rest: "rest = inner @ ''```'' @ after"
    by (rule sf [THEN conjunct1])
  have first: "\<forall>k < length inner. \<not> prefix ''```'' (drop k rest)"
    by (rule sf [THEN conjunct2])
  define m where "m = length (takeWhile isWhiteSpace inner)"
  define body where "body = trim inner"
  define w where "w = rev (takeWhile isWhiteSpace (rev (dropWhile isWhiteSpace inner)))"
  define tail where "tail = w @ ''```'' @ after"
  define B where "B = dropWhile isWhiteSpace rest"
  have w: "\<And>c. c \<in> set w \<Longrightarrow> isWhiteSpace c"
    unfolding w_def by (auto dest: set_takeWhileD)
  have split: "dropWhile isWhiteSpace inner = body @ w"
    unfolding body_def w_def by (rule trim_split)
  have "length inner = length (takeWhile isWhiteSpace inner) + length (dropWhile isWhiteSpace inner)"
    by (simp only: length_append [symmetric] takeWhile_dropWhile_id)
  then have len: "m + length body \<le> length inner"
    unfolding m_def split by simp
  have "takeWhile isWhiteSpace rest = takeWhile isWhiteSpace inner"
    unfolding rest
    using takeWhile_append_stop [of isWhiteSpace "CHR 0x60" inner "''``'' @ after"]
    by (simp add: backtick_not_space)
  then have Bdrop: "B = drop m rest"
    unfolding B_def m_def by (simp only: dropWhile_eq_drop)
  have "dropWhile isWhiteSpace rest = dropWhile isWhiteSpace inner @ ''```'' @ after"
    unfolding rest
    using dropWhile_append_stop [of isWhiteSpace "CHR 0x60" inner "''``'' @ after"]
    by (simp add: backtick_not_space)
  then have B: "B = body @ tail"
    unfolding B_def tail_def split by simp
  have close: "closingFence (drop (length body) B) = Some ()"
  proof -
    have "dropWhile isWhiteSpace tail = dropWhile isWhiteSpace (''```'' @ after)"
      unfolding tail_def using w by (rule dropWhile_append2)
    then have "closingFence tail = Some ()"
      by (simp add: closingFence_eq backtick_not_space)
    then show ?thesis by (simp add: B)
  qed
  have opn: "\<forall>i < length body. closingFence (drop i B) = None"
  proof (intro allI impI)
    fix i assume i: "i < length body"
    define d where "d = drop i body"
    define t where "t = length (takeWhile isWhiteSpace (drop i B))"
    from i have d: "d \<noteq> []" by (simp add: d_def)
    from i have body: "body \<noteq> []" by auto
    have "last d = last body" using i by (simp add: d_def)
    then have last: "\<not> isWhiteSpace (last d)"
      using body trim_last [of inner] by (simp add: body_def)
    have mem: "last d \<in> set d" using d by simp
    have dB: "drop i B = d @ tail"
      using i by (simp add: B d_def)
    have "t < length d"
      unfolding t_def dB using mem last by (rule length_takeWhile_less)
    then have lt: "t + i + m < length inner"
      using len i by (simp add: d_def)
    have no: "\<not> prefix ''```'' (drop (t + i + m) rest)"
      by (rule first [rule_format, OF lt])
    have "dropWhile isWhiteSpace (drop i B) = drop t (drop i B)"
      unfolding t_def by (rule dropWhile_eq_drop)
    also have "\<dots> = drop (t + i + m) rest"
      unfolding Bdrop by (simp add: add.assoc)
    finally have "dropWhile isWhiteSpace (drop i B) = drop (t + i + m) rest" .
    with no show "closingFence (drop i B) = None"
      by (simp only: closingFence_eq if_False)
  qed
  have "lazyGroup closingFence [] B = Some (rev [] @ take (length body) B)"
    by (rule lazyGroup_take [where u = "()"]) (use opn close in \<open>simp_all add: B\<close>)
  then have "lazyGroup closingFence [] B = Some body"
    by (simp add: B)
  then show ?thesis
    unfolding B_def body_def by (simp add: interiorToFence_def Some p)
qed

lemma fenceAt_interior:
  "fenceAt opener t =
     (if prefix opener t then interiorToFence (drop (length opener) t) else None)"
  by (simp only: fenceAt_eq lazyGroup_interiorToFence)

lemma interiorToFence_None: "interiorToFence s = None \<longleftrightarrow> \<not> sublist ''```'' s"
  unfolding interiorToFence_def splitFirst_None [symmetric]
  by (simp split: option.splits)

lemma interiorAfter_later:
  assumes "prefix opener (x # xs)"
    and "interiorToFence (drop (length opener) (x # xs)) = None"
  shows "interiorAfter opener xs = None"
proof (cases "splitFirst opener xs")
  case None
  then show ?thesis by (simp add: interiorAfter_def)
next
  case (Some p)
  obtain before rest where p: "p = (before, rest)" by (cases p)
  have xs: "xs = before @ opener @ rest"
    by (rule splitFirst_Some [OF Some [unfolded p], THEN conjunct1])
  define L where "L = x # before @ opener"
  have L: "length opener \<le> length L"
    by (simp add: L_def)
  have "x # xs = L @ rest"
    by (simp add: xs L_def)
  then have "drop (length opener) (x # xs) = drop (length opener) L @ rest"
    using L by simp
  then have "sublist rest (drop (length opener) (x # xs))"
    by (simp only: sublist_append_leftI)
  moreover have "\<not> sublist ''```'' (drop (length opener) (x # xs))"
    using assms(2) unfolding interiorToFence_None .
  ultimately have "\<not> sublist ''```'' rest"
    using sublist_order.order.trans by blast
  then have "interiorToFence rest = None"
    unfolding interiorToFence_None .
  then show ?thesis by (simp add: interiorAfter_def Some p)
qed

lemma search_interiorAfter: "search (fenceAt opener) raw = interiorAfter opener raw"
proof (induction raw)
  case Nil
  show ?case
    by (simp add: fenceAt_interior interiorAfter_def)
next
  case (Cons x xs)
  show ?case
  proof (cases "prefix opener (x # xs)")
    case False
    then have "search (fenceAt opener) (x # xs) = search (fenceAt opener) xs"
      by (simp add: fenceAt_interior)
    also have "\<dots> = interiorAfter opener xs" by (rule Cons.IH)
    also have "\<dots> = interiorAfter opener (x # xs)"
      using False by (simp add: interiorAfter_def split: option.splits)
    finally show ?thesis .
  next
    case True
    then have here: "interiorAfter opener (x # xs) = interiorToFence (drop (length opener) (x # xs))"
      by (simp add: interiorAfter_def)
    show ?thesis
    proof (cases "interiorToFence (drop (length opener) (x # xs))")
      case (Some r)
      with True have "fenceAt opener (x # xs) = Some r"
        by (simp only: fenceAt_interior if_True)
      then have "search (fenceAt opener) (x # xs) = Some r" by simp
      with here Some show ?thesis by simp
    next
      case None
      with True have "fenceAt opener (x # xs) = None"
        by (simp only: fenceAt_interior if_True)
      then have "search (fenceAt opener) (x # xs) = search (fenceAt opener) xs" by simp
      also have "\<dots> = interiorAfter opener xs" by (rule Cons.IH)
      also have "\<dots> = None" using True None by (rule interiorAfter_later)
      finally show ?thesis using here None by simp
    qed
  qed
qed

lemma jsonMatch_fencedBlock: "jsonMatch raw = fencedBlock raw"
  by (simp only: jsonMatch_def fencedBlock_def search_interiorAfter)

lemma finishExtraction_success:
  assumes "parseInsights JSON_parse extractedContent = Inr insights"
    and "validatedInsights numberToString numberIsFalsy insights now job_posting_ids = Inr v"
    and "rejects \<lparr> row_user_id = req_user_id, row_job_posting_ids = job_posting_ids,
                     row_role_title = role_title v, row_seniority_level = seniority_level v,
                     row_industry_context = industry_context v, row_insights = v \<rparr> = None"
  shows "finishExtraction numberToString numberIsFalsy JSON_parse rejects newId now req_user_id
           job_posting_ids extractedContent table =
           (Success_response (newId table) v,
            table @ [\<lparr> row_user_id = req_user_id, row_job_posting_ids = job_posting_ids,
                       row_role_title = role_title v, row_seniority_level = seniority_level v,
                       row_industry_context = industry_context v, row_insights = v \<rparr>])"
  using assms by (simp add: finishExtraction_def insertRow_def)

section \<open>The response parser and the end of the request: claims\<close>

text \<open>
  C6. The claim: for every raw input the parser looks for a fenced block, with an
  optional language tag, and parses the inside of the block if there is one and the
  whole input otherwise. The first expression of the route skips the tag \<^verbatim>\<open>json\<close> and the
  second skips no tag at all: of a block tagged \<^verbatim>\<open>js\<close> the route parses the tag together
  with the inside, and a \<^verbatim>\<open>JSON.parse\<close> that reads the inside \<^verbatim>\<open>{"a":1}\<close> rejects that text.
\<close>

theorem other_language_tag_is_parsed:
  \<open>jsonMatch ''```js\<newline>{"a":1}\<newline>```'' = Some ''js\<newline>{"a":1}''
   \<and> sampleParse ''{"a":1}'' = Inr (JObj [(''a'', JNum One)])
   \<and> parseInsights sampleParse ''```js\<newline>{"a":1}\<newline>```'' =
       Inl (Parse_failure ''```js\<newline>{"a":1}\<newline>```'' ''Unexpected token'')\<close>
proof -
  have m: \<open>jsonMatch ''```js\<newline>{"a":1}\<newline>```'' = Some ''js\<newline>{"a":1}''\<close>
    by code_simp
  have p: \<open>sampleParse ''{"a":1}'' = Inr (JObj [(''a'', JNum One)])\<close>
    \<open>sampleParse ''js\<newline>{"a":1}'' = Inl ''Unexpected token''\<close>
    by (simp_all add: sampleParse_def)
  from m p show ?thesis
    by (simp add: parseInsights_def jsonContent_def)
qed

text \<open>
  C6, as the route has it: for every raw input the parser looks for the first \<^verbatim>\<open>```json\<close>
  that has a \<^verbatim>\<open>```\<close> after it and, when there is none, for the first \<^verbatim>\<open>```\<close> that has a
  \<^verbatim>\<open>```\<close> after it. If it finds one, it parses the text between that opening fence and
  the next \<^verbatim>\<open>```\<close>, without the white space around it; \<^verbatim>\<open>json\<close> is the only tag left out of
  that text. Otherwise it parses the whole input. A block is found exactly when the
  input holds two fences, one after the other. With a \<^verbatim>\<open>JSON.parse\<close> that reads
  \<^verbatim>\<open>{"a":1}\<close>, the fenced and the bare \<^verbatim>\<open>{"a":1}\<close> both give that value; with one that
  rejects \<^verbatim>\<open>not json\<close>, that input fails with the raw text and the message of the parser.
\<close>

theorem response_parser_algorithm:
  \<open>jsonMatch raw = fencedBlock raw
   \<and> parseInsights JSON_parse raw =
       map_sum (Parse_failure raw) id
         (JSON_parse (case fencedBlock raw of Some interior \<Rightarrow> interior | None \<Rightarrow> raw))
   \<and> (fencedBlock raw \<noteq> None \<longleftrightarrow>
        (\<exists>before mid after. raw = before @ ''```'' @ mid @ ''```'' @ after))
   \<and> (JSON_parse ''{"a":1}'' = Inr v \<longrightarrow>
      parseInsights JSON_parse ''```json\<newline>{"a":1}\<newline>```'' = Inr v
      \<and> parseInsights JSON_parse ''{"a":1}'' = Inr v)
   \<and> (JSON_parse ''not json'' = Inl message \<longrightarrow>
      parseInsights JSON_parse ''not json'' = Inl (Parse_failure ''not json'' message))\<close>
proof (intro conjI impI)
  show "jsonMatch raw = fencedBlock raw"
    by (rule jsonMatch_fencedBlock)
  show "parseInsights JSON_parse raw =
       map_sum (Parse_failure raw) id
         (JSON_parse (case fencedBlock raw of Some interior \<Rightarrow> interior | None \<Rightarrow> raw))"
    by (simp only: parseInsights_eq jsonContent_def jsonMatch_fencedBlock)
  show "fencedBlock raw \<noteq> None \<longleftrightarrow>
        (\<exists>before mid after. raw = before @ ''```'' @ mid @ ''```'' @ after)"
    unfolding jsonMatch_fencedBlock [symmetric] by (rule jsonMatch_found_iff)
  show \<open>parseInsights JSON_parse ''```json\<newline>{"a":1}\<newline>```'' = Inr v\<close>
    if \<open>JSON_parse ''{"a":1}'' = Inr v\<close>
    unfolding parseInsights_eq example_fenced using that by simp
  show \<open>parseInsights JSON_parse ''{"a":1}'' = Inr v\<close>
    if \<open>JSON_parse ''{"a":1}'' = Inr v\<close>
    unfolding parseInsights_eq example_bare using that by simp
  show "parseInsights JSON_parse ''not json'' = Inl (Parse_failure ''not json'' message)"
    if "JSON_parse ''not json'' = Inl message"
    unfolding parseInsights_eq example_not_json using that by simp
qed

theorem response_parser_algorithm_witness:
  \<open>jsonMatch ''Use `x`: ```json\<newline>{"a":1}\<newline>``` done'' = Some ''{"a":1}''
   \<and> fencedBlock ''Use `x`: ```json\<newline>{"a":1}\<newline>``` done'' = Some ''{"a":1}''
   \<and> parseInsights sampleParse ''Use `x`: ```json\<newline>{"a":1}\<newline>``` done'' =
       Inr (JObj [(''a'', JNum One)])
   \<and> sampleParse ''{"a":1}'' = Inr (JObj [(''a'', JNum One)])
   \<and> parseInsights sampleParse ''```json\<newline>{"a":1}\<newline>```'' = Inr (JObj [(''a'', JNum One)])
   \<and> parseInsights sampleParse ''{"a":1}'' = Inr (JObj [(''a'', JNum One)])
   \<and> sampleParse ''not json'' = Inl ''Unexpected token''
   \<and> parseInsights sampleParse ''not json'' = Inl (Parse_failure ''not json'' ''Unexpected token'')\<close>
proof -
  have f: \<open>fencedBlock ''Use `x`: ```json\<newline>{"a":1}\<newline>``` done'' = Some ''{"a":1}''\<close>
    by code_simp
  have p: \<open>sampleParse ''{"a":1}'' = Inr (JObj [(''a'', JNum One)])\<close>
    \<open>sampleParse ''not json'' = Inl ''Unexpected token''\<close>
    by (simp_all add: sampleParse_def)
  note T = response_parser_algorithm [of \<open>''Use `x`: ```json\<newline>{"a":1}\<newline>``` done''\<close> sampleParse
      \<open>JObj [(''a'', JNum One)]\<close> \<open>''Unexpected token''\<close>]
  from T f have m: \<open>jsonMatch ''Use `x`: ```json\<newline>{"a":1}\<newline>``` done'' = Some ''{"a":1}''\<close>
    by (simp only:)
  from T have \<open>parseInsights sampleParse ''Use `x`: ```json\<newline>{"a":1}\<newline>``` done'' =
       map_sum (Parse_failure ''Use `x`: ```json\<newline>{"a":1}\<newline>``` done'') id
         (sampleParse (case fencedBlock ''Use `x`: ```json\<newline>{"a":1}\<newline>``` done'' of
            Some interior \<Rightarrow> interior | None \<Rightarrow> ''Use `x`: ```json\<newline>{"a":1}\<newline>``` done''))\<close>
    by (elim conjE)
  then have r: \<open>parseInsights sampleParse ''Use `x`: ```json\<newline>{"a":1}\<newline>``` done'' =
       Inr (JObj [(''a'', JNum One)])\<close>
    unfolding f by (simp add: p)
  from T p have e: \<open>parseInsights sampleParse ''```json\<newline>{"a":1}\<newline>```'' = Inr (JObj [(''a'', JNum One)])
      \<and> parseInsights sampleParse ''{"a":1}'' = Inr (JObj [(''a'', JNum One)])\<close>
    by (elim conjE) (erule mp)
  from T p have n: \<open>parseInsights sampleParse ''not json'' = Inl (Parse_failure ''not json'' ''Unexpected token'')\<close>
    by (elim conjE) (erule mp)
  show ?thesis
    by (intro conjI m f r p e [THEN conjunct1] e [THEN conjunct2] n)
qed

text \<open>
  C7. When \<^verbatim>\<open>JSON.parse\<close> rejects the content of the agent's answer, the request ends
  with the answer of the inner \<^verbatim>\<open>catch\<close>: status 500, the raw content and the message of
  the parser. The table \<^verbatim>\<open>role_insights\<close> is as it was; the answer depends neither on
  the clock, nor on the request's ids, nor on what the database would have done with a
  row, because neither the normalizer nor the insert is reached.
\<close>

theorem parse_failure_is_atomic:
  "JSON_parse (jsonContent extractedContent) = Inl message \<longrightarrow>
     finishExtraction numberToString numberIsFalsy JSON_parse rejects newId now req_user_id
         job_posting_ids extractedContent table =
       (Parse_error_response (Parse_failure extractedContent message), table)
     \<and> status (fst (finishExtraction numberToString numberIsFalsy JSON_parse rejects newId now
                      req_user_id job_posting_ids extractedContent table)) = 500"
  by (simp add: finishExtraction_def parseInsights_def)

theorem parse_failure_is_atomic_witness:
  "sampleParse (jsonContent ''not json'') = Inl ''Unexpected token''
   \<and> finishExtraction sampleNumberToString sampleNumberIsFalsy sampleParse neverRejects rowCountId
        ''2025-01-01T00:00:00.000Z'' ''u1'' [''doc1''] ''not json'' [] =
       (Parse_error_response (Parse_failure ''not json'' ''Unexpected token''), [])"
proof -
  have h: "sampleParse (jsonContent ''not json'') = Inl ''Unexpected token''"
    unfolding example_not_json by (simp add: sampleParse_def)
  show ?thesis
    using parse_failure_is_atomic [of sampleParse "''not json''" "''Unexpected token''"
        sampleNumberToString sampleNumberIsFalsy neverRejects rowCountId
        "''2025-01-01T00:00:00.000Z''" "''u1''" "[''doc1'']" "[]"] h
    by simp
qed

end
